theory Spec2Isabelle
  imports Complex_Main "HOL-Library.Multiset"
begin

section \<open>Data model of etl.py\<close>

text \<open>
  A data frame is modelled row-wise, as the list of its rows in frame order.
  Floats are modelled by the reals (exact arithmetic; rounding is not modelled), and a
  float cell that may hold NaN is a \<open>real option\<close> with \<open>None\<close> for NaN.
  Timestamps are kept abstract: any linearly ordered type (the store returns text, which
  pandas orders lexicographically).

  A row of \<open>dfs['exec']\<close>, the result of
  \<^verbatim>\<open>SELECT exec_date, price, side, size FROM lightning_executions_FX_BTC_JPY;\<close>
  The column \<open>size\<close> is named \<open>exec_size\<close> here, since \<open>size\<close> is a constant of HOL.
\<close>

record 't exec_row =
  exec_date :: 't
  price :: real
  side :: string
  exec_size :: real

text \<open>
  The exceptions that can leave lines 61 to 77 of \<open>main\<close>. The source itself has no
  \<open>raise\<close>; \<open>1 / a\<close> raises ZeroDivisionError for a zero float, and pandas raises
  ValueError for a negative centre of mass and for \<open>pd.concat\<close> of no frames.
\<close>

datatype py_error = ZeroDivisionError | ValueError

section \<open>Signing (lines 61 to 63)\<close>

text \<open>
  \<^verbatim>\<open>signed_size=lambda d: np.where(d['side'] == 'BUY', d['size'], - d['size'])\<close>
  \<open>np.where\<close> chooses element by element, so the new column holds, for each row,
  the value below. The comparison is string equality with the literal BUY.
\<close>

definition signed_size :: "'t exec_row \<Rightarrow> real" where
  "signed_size d = (if side d = ''BUY'' then exec_size d else - exec_size d)"

text \<open>
  The signing step as a stage that may fail: the source has no check of the side and no
  \<open>raise\<close> here, so the stage always returns a value.
\<close>

definition flow_signer :: "'t exec_row \<Rightarrow> py_error + real" where
  "flow_signer d = Inr (signed_size d)"

text \<open>
  \<^verbatim>\<open>dfs['exec'].assign(signed_size=...).rename(columns={'exec_date': 'timestamp'})\<close>
  followed by the selection of the columns \<open>timestamp\<close> (the group key) and
  \<open>signed_size\<close>: the pairs that enter the grouped sum, in frame order.
\<close>

definition assign_signed_size :: "'t exec_row list \<Rightarrow> ('t \<times> real) list" where
  "assign_signed_size df = map (\<lambda>d. (exec_date d, signed_size d)) df"

section \<open>Aggregation by timestamp (lines 64 to 66)\<close>

text \<open>
  \<^verbatim>\<open>.groupby('timestamp')['signed_size'].sum().to_frame(name='size')\<close>
  The grouped sum runs over the rows in frame order and adds each value to the total
  of its key; the result is indexed by the keys in ascending order (\<open>sort=True\<close> is the
  default of \<open>groupby\<close>). The groups are kept as an association list ordered by key:
  \<open>group_add\<close> adds one row to it.
\<close>

fun group_add :: "'t::linorder \<Rightarrow> real \<Rightarrow> ('t \<times> real) list \<Rightarrow> ('t \<times> real) list" where
  "group_add k v [] = [(k, v)]"
| "group_add k v ((k', s) # gs) =
     (if k = k' then (k', s + v) # gs
      else if k < k' then (k, v) # (k', s) # gs
      else (k', s) # group_add k v gs)"

definition groupby_sum :: "('t::linorder \<times> real) list \<Rightarrow> ('t \<times> real) list" where
  "groupby_sum rows = foldl (\<lambda>gs (k, v). group_add k v gs) [] rows"

text \<open>The frame \<open>df_exec_delta\<close>: index \<open>timestamp\<close>, one column \<open>size\<close>.\<close>

definition df_exec_delta :: "('t::linorder) exec_row list \<Rightarrow> ('t \<times> real) list" where
  "df_exec_delta df = groupby_sum (assign_signed_size df)"


section \<open>Exponentially weighted mean and standard deviation (lines 73 and 74)\<close>

text \<open>
  \<^verbatim>\<open>d['size'].ewm(com=(1 / a - 1)).mean()\<close> and
  \<^verbatim>\<open>d['size'].ewm(com=(1 / a - 1)).std()\<close>
  call pandas with its defaults \<open>adjust=True\<close>, \<open>ignore_na=False\<close>, \<open>min_periods=0\<close>
  and, for \<open>std\<close>, \<open>bias=False\<close>. The two functions below follow the loops that pandas
  runs for these settings (\<open>ewm\<close> and \<open>ewmcov\<close> of its window aggregations), with
  \<open>alpha = 1 / (1 + com)\<close>, \<open>old_wt_factor = 1 - alpha\<close> and \<open>new_wt = 1\<close>
  (written \<open>1\<close> below). The input column is the grouped sum, which holds no NaN, so
  every value is an observation and the branches of the loops for missing values are
  not taken.

  The mean: the first output is the first value; each further value \<open>cur\<close> updates the
  running average \<open>weighted\<close> and the accumulated weight \<open>old_wt\<close>. The test
  \<open>weighted \<noteq> cur\<close> is the guard pandas has against rounding on constant series.
\<close>

fun ewm_mean_loop :: "real \<Rightarrow> real \<Rightarrow> real \<Rightarrow> real list \<Rightarrow> real option list" where
  "ewm_mean_loop old_wt_factor weighted old_wt [] = []"
| "ewm_mean_loop old_wt_factor weighted old_wt (cur # vals) =
     (let old_wt1 = old_wt * old_wt_factor;
          weighted' = (if weighted \<noteq> cur
                       then (old_wt1 * weighted + 1 * cur) / (old_wt1 + 1)
                       else weighted);
          old_wt2 = old_wt1 + 1
      in Some weighted' # ewm_mean_loop old_wt_factor weighted' old_wt2 vals)"

definition ewm_mean :: "real \<Rightarrow> real list \<Rightarrow> real option list" where
  "ewm_mean com vals =
     (case vals of
        [] \<Rightarrow> []
      | v # rest \<Rightarrow> Some v # ewm_mean_loop (1 - 1 / (1 + com)) v 1 rest)"

text \<open>
  The variance is the covariance of the column with itself, so the two running means of
  \<open>ewmcov\<close> coincide and are kept as the one field \<open>mean_x\<close>. The state of the loop:
\<close>

record ewmcov_state =
  mean_x :: real
  cov :: real
  sum_wt :: real
  sum_wt2 :: real
  old_wt :: real

text \<open>
  One pass of the loop per value. With \<open>bias=False\<close> the output is
  \<open>numerator / denominator * cov\<close> when \<open>denominator > 0\<close> and NaN otherwise, where
  \<open>numerator = sum_wt * sum_wt\<close> and \<open>denominator = numerator - sum_wt2\<close>.
\<close>

fun ewmcov_loop :: "real \<Rightarrow> ewmcov_state \<Rightarrow> real list \<Rightarrow> real option list" where
  "ewmcov_loop old_wt_factor st [] = []"
| "ewmcov_loop old_wt_factor st (cur_x # vals) =
     (let sum_wt1 = sum_wt st * old_wt_factor;
          sum_wt2_1 = sum_wt2 st * (old_wt_factor * old_wt_factor);
          old_wt1 = old_wt st * old_wt_factor;
          old_mean_x = mean_x st;
          mean_x' = (if mean_x st \<noteq> cur_x
                     then (old_wt1 * old_mean_x + 1 * cur_x) / (old_wt1 + 1)
                     else mean_x st);
          cov' = (old_wt1 * (cov st + (old_mean_x - mean_x') * (old_mean_x - mean_x'))
                  + 1 * ((cur_x - mean_x') * (cur_x - mean_x'))) / (old_wt1 + 1);
          st' = \<lparr>mean_x = mean_x', cov = cov', sum_wt = sum_wt1 + 1,
                 sum_wt2 = sum_wt2_1 + 1 * 1, old_wt = old_wt1 + 1\<rparr>;
          numerator = sum_wt st' * sum_wt st';
          denominator = numerator - sum_wt2 st'
      in (if denominator > 0 then Some (numerator / denominator * cov st') else None)
         # ewmcov_loop old_wt_factor st' vals)"

text \<open>The first output of the variance is NaN: \<open>bias\<close> is false.\<close>

definition ewm_var :: "real \<Rightarrow> real list \<Rightarrow> real option list" where
  "ewm_var com vals =
     (case vals of
        [] \<Rightarrow> []
      | v # rest \<Rightarrow>
          None # ewmcov_loop (1 - 1 / (1 + com))
                   \<lparr>mean_x = v, cov = 0, sum_wt = 1, sum_wt2 = 1, old_wt = 1\<rparr> rest)"

text \<open>
  \<open>std\<close> is \<open>zsqrt\<close> of the variance: the square root, with a negative value mapped
  to zero and NaN kept.
\<close>

fun zsqrt :: "real option \<Rightarrow> real option" where
  "zsqrt None = None"
| "zsqrt (Some v) = Some (if v < 0 then 0 else sqrt v)"

definition ewm_std :: "real \<Rightarrow> real list \<Rightarrow> real option list" where
  "ewm_std com vals = map zsqrt (ewm_var com vals)"

section \<open>The smoothed table (lines 69 to 76)\<close>

text \<open>A row of \<open>df_ewm\<close>: the columns \<open>timestamp\<close>, \<open>size\<close>, \<open>alpha\<close>, \<open>ewma\<close>, \<open>ewmstd\<close>.\<close>

record 't ewm_row =
  timestamp :: 't
  size_col :: real
  alpha :: real
  ewma :: "real option"
  ewmstd :: "real option"

text \<open>
  \<^verbatim>\<open>.ewm(com=(1 / a - 1))\<close>: the division raises ZeroDivisionError for \<open>a = 0\<close>, and
  pandas raises ValueError for a negative centre of mass.
\<close>

definition ewm_com :: "real \<Rightarrow> py_error + real" where
  "ewm_com a =
     (if a = 0 then Inl ZeroDivisionError
      else if 1 / a - 1 < 0 then Inl ValueError
      else Inr (1 / a - 1))"

text \<open>
  \<^verbatim>\<open>df_exec_delta.reset_index().assign(alpha=a, ewma=..., ewmstd=...)\<close>
  The frame keeps its rows and gains the three columns; row \<open>i\<close> receives the
  \<open>i\<close>-th value of each new column.
\<close>

definition ewm_columns :: "real \<Rightarrow> real \<Rightarrow> ('t \<times> real) list \<Rightarrow> 't ewm_row list" where
  "ewm_columns a com df =
     map (\<lambda>((t, x), (m, s)).
            \<lparr>timestamp = t, size_col = x, alpha = a, ewma = m, ewmstd = s\<rparr>)
       (zip df (zip (ewm_mean com (map snd df)) (ewm_std com (map snd df))))"

definition assign_ewm :: "real \<Rightarrow> ('t \<times> real) list \<Rightarrow> py_error + 't ewm_row list" where
  "assign_ewm a df =
     (case ewm_com a of
        Inl e \<Rightarrow> Inl e
      | Inr com \<Rightarrow> Inr (ewm_columns a com df))"

text \<open>The list comprehension \<^verbatim>\<open>[... for a in alpha]\<close>: the first exception ends it.\<close>

fun ewm_frames :: "real list \<Rightarrow> ('t \<times> real) list \<Rightarrow> py_error + 't ewm_row list list" where
  "ewm_frames [] df = Inr []"
| "ewm_frames (a # as) df =
     (case assign_ewm a df of
        Inl e \<Rightarrow> Inl e
      | Inr frame \<Rightarrow>
          (case ewm_frames as df of
             Inl e \<Rightarrow> Inl e
           | Inr frames \<Rightarrow> Inr (frame # frames)))"

text \<open>\<open>pd.concat\<close> stacks the frames in list order and raises ValueError for no frames.\<close>

definition pd_concat :: "'a list list \<Rightarrow> py_error + 'a list" where
  "pd_concat frames = (if frames = [] then Inl ValueError else Inr (concat frames))"

text \<open>
  \<^verbatim>\<open>.dropna(how='any')\<close> removes each row that has a NaN in some column. The columns
  \<open>timestamp\<close>, \<open>size\<close> and \<open>alpha\<close> hold none, so the test reads \<open>ewma\<close> and \<open>ewmstd\<close>.
\<close>

definition dropna :: "'t ewm_row list \<Rightarrow> 't ewm_row list" where
  "dropna rows = filter (\<lambda>r. ewma r \<noteq> None \<and> ewmstd r \<noteq> None) rows"

definition df_ewm :: "real list \<Rightarrow> ('t \<times> real) list \<Rightarrow> py_error + 't ewm_row list" where
  "df_ewm as df =
     (case ewm_frames as df of
        Inl e \<Rightarrow> Inl e
      | Inr frames \<Rightarrow>
          (case pd_concat frames of
             Inl e \<Rightarrow> Inl e
           | Inr rows \<Rightarrow> Inr (dropna rows)))"

text \<open>
  \<^verbatim>\<open>alpha = [0.01, 0.05, 0.1]\<close> (line 69). The list is named \<open>alphas\<close>, since \<open>alpha\<close>
  is the column.
\<close>

definition alphas :: "real list" where
  "alphas = [1 / 100, 5 / 100, 1 / 10]"

text \<open>
  Lines 61 to 77 of \<open>main\<close>, from the execution rows to the two frames that are written:
  \<open>df_exec_delta\<close> and \<open>df_ewm\<close>. The plot (lines 79 to 84) reads \<open>df_ewm\<close> and is not
  part of the model.
\<close>

definition etl ::
  "('t::linorder) exec_row list \<Rightarrow> py_error + ('t \<times> real) list \<times> 't ewm_row list" where
  "etl df_exec =
     (let delta = df_exec_delta df_exec
      in case df_ewm alphas delta of
           Inl e \<Rightarrow> Inl e
         | Inr rows \<Rightarrow> Inr (delta, rows))"

text \<open>
  \<^verbatim>\<open>df_ewm.to_csv('df_ewm.csv', index=False)\<close> writes the rows in frame order. The
  columns \<open>timestamp\<close> and \<open>alpha\<close> of the written rows, in file order:
\<close>

definition row_key :: "'t ewm_row \<Rightarrow> 't \<times> real" where
  "row_key r = (timestamp r, alpha r)"

definition written_keys :: "('t::linorder) exec_row list \<Rightarrow> py_error + ('t \<times> real) list" where
  "written_keys df_exec = map_sum id (map row_key \<circ> snd) (etl df_exec)"

text \<open>
  Two orders on (timestamp, alpha) pairs: by timestamp first and decay parameter second,
  and by decay parameter first and timestamp second.
\<close>

definition timestamp_then_alpha :: "('t::linorder) \<times> real \<Rightarrow> 't \<times> real \<Rightarrow> bool" where
  "timestamp_then_alpha k k' \<longleftrightarrow> fst k < fst k' \<or> (fst k = fst k' \<and> snd k \<le> snd k')"

definition alpha_then_timestamp :: "('t::linorder) \<times> real \<Rightarrow> 't \<times> real \<Rightarrow> bool" where
  "alpha_then_timestamp k k' \<longleftrightarrow> snd k < snd k' \<or> (snd k = snd k' \<and> fst k < fst k')"

section \<open>Command line and loading (lines 37 to 55)\<close>

text \<open>
  The dictionary that \<open>docopt\<close> returns for the usage text of the module: \<open>--debug\<close> is a
  flag and \<open>--sqlite\<close> has the default \<open>lightning.sqlite3\<close> when it is not given.
\<close>

record args =
  debug :: bool
  sqlite :: string

definition docopt :: "bool \<Rightarrow> string option \<Rightarrow> args" where
  "docopt debug_flag sqlite_opt =
     \<lparr>debug = debug_flag,
      sqlite = (case sqlite_opt of None \<Rightarrow> ''lightning.sqlite3'' | Some path \<Rightarrow> path)\<rparr>"

text \<open>
  \<^verbatim>\<open>with sqlite3.connect('lightning.sqlite3') as con:\<close> (line 45): the path that
  \<open>main\<close> opens. The two queries run on this connection; \<open>files\<close> gives the content of
  the database stored under each path.
\<close>

definition connect_path :: "args \<Rightarrow> string" where
  "connect_path args = ''lightning.sqlite3''"

definition read_dfs :: "(string \<Rightarrow> 'db) \<Rightarrow> args \<Rightarrow> 'db" where
  "read_dfs files args = files (connect_path args)"

section \<open>The recurrences of the specification\<close>

text \<open>
  The sequences the specification defines for a decay parameter \<open>\<alpha>\<close> and the values
  \<open>x\<^sub>1, \<dots>, x\<^sub>n\<close>; position \<open>i\<close> counts from 1, so \<open>x\<^sub>i\<close> is \<open>xs ! (i - 1)\<close>.
  \<open>S_spec\<close> is the weighted cumulative value, \<open>W_spec\<close> the weighted cumulative mass,
  \<open>Wsq_spec\<close> the sum of squared weights and \<open>D_spec\<close> the weighted sum of squared
  deviations, each by its recurrence.
\<close>

fun S_spec :: "real \<Rightarrow> real list \<Rightarrow> nat \<Rightarrow> real" where
  "S_spec \<alpha> xs 0 = 0"
| "S_spec \<alpha> xs (Suc i) = xs ! i + (1 - \<alpha>) * S_spec \<alpha> xs i"

fun W_spec :: "real \<Rightarrow> nat \<Rightarrow> real" where
  "W_spec \<alpha> 0 = 0"
| "W_spec \<alpha> (Suc i) = 1 + (1 - \<alpha>) * W_spec \<alpha> i"

definition mean_spec :: "real \<Rightarrow> real list \<Rightarrow> nat \<Rightarrow> real" where
  "mean_spec \<alpha> xs i = S_spec \<alpha> xs i / W_spec \<alpha> i"

fun Wsq_spec :: "real \<Rightarrow> nat \<Rightarrow> real" where
  "Wsq_spec \<alpha> 0 = 0"
| "Wsq_spec \<alpha> (Suc i) = 1 + (1 - \<alpha>)\<^sup>2 * Wsq_spec \<alpha> i"

fun D_spec :: "real \<Rightarrow> real list \<Rightarrow> nat \<Rightarrow> real" where
  "D_spec \<alpha> xs 0 = 0"
| "D_spec \<alpha> xs (Suc i) =
     (1 - \<alpha>) * D_spec \<alpha> xs i
     + (1 - \<alpha>) * W_spec \<alpha> i / W_spec \<alpha> (Suc i) * (xs ! i - mean_spec \<alpha> xs i)\<^sup>2"

text \<open>
  The denominator of the bias-corrected variance, the variance (defined when the
  denominator is positive) and the standard deviation (its square root when defined).
\<close>

definition var_denom :: "real \<Rightarrow> nat \<Rightarrow> real" where
  "var_denom \<alpha> i = W_spec \<alpha> i - Wsq_spec \<alpha> i / W_spec \<alpha> i"

definition var_spec :: "real \<Rightarrow> real list \<Rightarrow> nat \<Rightarrow> real option" where
  "var_spec \<alpha> xs i =
     (if var_denom \<alpha> i > 0 then Some (D_spec \<alpha> xs i / var_denom \<alpha> i) else None)"

definition std_spec :: "real \<Rightarrow> real list \<Rightarrow> nat \<Rightarrow> real option" where
  "std_spec \<alpha> xs i = map_option sqrt (var_spec \<alpha> xs i)"

text \<open>
  The state of the variance loop after \<open>n\<close> values, in terms of the recurrences; it is
  the invariant of the loop.
\<close>

definition spec_state :: "real \<Rightarrow> real list \<Rightarrow> nat \<Rightarrow> ewmcov_state" where
  "spec_state \<alpha> xs n =
     \<lparr>mean_x = mean_spec \<alpha> xs n, cov = D_spec \<alpha> xs n / W_spec \<alpha> n,
      sum_wt = W_spec \<alpha> n, sum_wt2 = Wsq_spec \<alpha> n, old_wt = W_spec \<alpha> n\<rparr>"

section \<open>Theorems\<close>

subsection \<open>Signing\<close>

text \<open>
  Claim C10. For every execution row whose side is neither BUY nor SELL the signing
  step raises no error and gives the negated size: every side other than the exact
  string BUY is signed as a sell.
\<close>

theorem C10_other_side_is_sell:
  assumes "side d \<noteq> ''BUY''" and "side d \<noteq> ''SELL''"
  shows "flow_signer d = Inr (- exec_size d)"
  using assms by (simp add: flow_signer_def signed_size_def)

theorem C10_other_side_is_sell_witness:
  "side \<lparr>exec_date = (1::nat), price = 100, side = ''HOLD'', exec_size = 2\<rparr> \<noteq> ''BUY''
   \<and> side \<lparr>exec_date = (1::nat), price = 100, side = ''HOLD'', exec_size = 2\<rparr> \<noteq> ''SELL''
   \<and> flow_signer \<lparr>exec_date = (1::nat), price = 100, side = ''HOLD'', exec_size = 2\<rparr>
       = Inr (- 2)"
  using C10_other_side_is_sell
    [of "\<lparr>exec_date = (1::nat), price = 100, side = ''HOLD'', exec_size = 2\<rparr>"]
  by simp

text \<open>
  Claim C4, as stated, asks for a failure on a side that is neither BUY nor SELL. The
  code gives a value there: for the side \<open>''''\<close> (the empty string) and size 2 the
  signing step returns \<open>- 2\<close> and no error.
\<close>

theorem C4_counterexample:
  "side \<lparr>exec_date = (1::nat), price = 100, side = '''', exec_size = 2\<rparr> \<noteq> ''BUY''
   \<and> side \<lparr>exec_date = (1::nat), price = 100, side = '''', exec_size = 2\<rparr> \<noteq> ''SELL''
   \<and> flow_signer \<lparr>exec_date = (1::nat), price = 100, side = '''', exec_size = 2\<rparr>
       = Inr (- 2)"
  by (simp add: flow_signer_def signed_size_def)

text \<open>
  Claim C4, amended. The signing step gives the size when the side is BUY and the
  negated size for every other side (SELL included); it never fails.
\<close>

theorem C4_flow_signer:
  "flow_signer d = Inr (if side d = ''BUY'' then exec_size d else - exec_size d)"
  by (simp add: flow_signer_def signed_size_def)

subsection \<open>Aggregation\<close>

lemma keys_group_add: "fst ` set (group_add k v gs) = insert k (fst ` set gs)"
  by (induction k v gs rule: group_add.induct) auto

lemma sorted_group_add:
  "sorted_wrt (<) (map fst gs) \<Longrightarrow> sorted_wrt (<) (map fst (group_add k v gs))"
  by (induction k v gs rule: group_add.induct) (auto simp: keys_group_add)


lemma groupby_sum_snoc:
  "groupby_sum (rows @ [(k, v)]) = group_add k v (groupby_sum rows)"
  by (simp add: groupby_sum_def)

lemma sorted_groupby_sum: "sorted_wrt (<) (map fst (groupby_sum rows))"
proof (induction rows rule: rev_induct)
  case Nil
  then show ?case by (simp add: groupby_sum_def)
next
  case (snoc r rows)
  then show ?case by (cases r) (simp add: groupby_sum_snoc sorted_group_add)
qed










subsection \<open>The smoothing loops and the recurrences\<close>

lemmas spec_Suc = S_spec.simps(2) W_spec.simps(2) Wsq_spec.simps(2) D_spec.simps(2)

lemma W_spec_ge1: "\<alpha> \<le> 1 \<Longrightarrow> 1 \<le> W_spec \<alpha> (Suc n)"
  by (induction n) simp_all

lemma mean_step:
  fixes W f S x :: real
  assumes "0 < W" and "0 \<le> f"
  shows "(if S / W \<noteq> x then (W * f * (S / W) + 1 * x) / (W * f + 1) else S / W)
         = (x + f * S) / (1 + f * W)"
proof -
  from assms have "0 \<le> f * W" by simp
  then have p: "0 < 1 + f * W" by linarith
  show ?thesis
  proof (cases "S / W = x")
    case True
    with assms have "S = x * W" by (simp add: field_simps)
    with p show ?thesis using assms by (simp add: field_simps)
  next
    case False
    with assms p show ?thesis by (simp add: field_simps)
  qed
qed

lemma mean_spec_Suc:
  assumes "\<alpha> \<le> 1"
  shows "(if mean_spec \<alpha> xs (Suc n) \<noteq> x
          then (W_spec \<alpha> (Suc n) * (1 - \<alpha>) * mean_spec \<alpha> xs (Suc n) + 1 * x)
               / (W_spec \<alpha> (Suc n) * (1 - \<alpha>) + 1)
          else mean_spec \<alpha> xs (Suc n))
         = (x + (1 - \<alpha>) * S_spec \<alpha> xs (Suc n)) / (1 + (1 - \<alpha>) * W_spec \<alpha> (Suc n))"
proof -
  have "0 < W_spec \<alpha> (Suc n)" using W_spec_ge1[OF assms, of n] by linarith
  moreover have "0 \<le> 1 - \<alpha>" using assms by simp
  ultimately show ?thesis
    unfolding mean_spec_def by (rule mean_step)
qed

lemma ewm_mean_loop_spec:
  assumes "\<alpha> \<le> 1"
  shows "Suc n \<le> length xs \<Longrightarrow>
     ewm_mean_loop (1 - \<alpha>) (mean_spec \<alpha> xs (Suc n)) (W_spec \<alpha> (Suc n)) (drop (Suc n) xs)
     = map (\<lambda>i. Some (mean_spec \<alpha> xs (Suc i))) [Suc n..<length xs]"
proof (induction "length xs - Suc n" arbitrary: n)
  case 0
  then show ?case by simp
next
  case (Suc k)
  then have lt: "Suc n < length xs" by simp
  then have d: "drop (Suc n) xs = xs ! Suc n # drop (Suc (Suc n)) xs"
    by (simp add: Cons_nth_drop_Suc)
  have u: "[Suc n..<length xs] = Suc n # [Suc (Suc n)..<length xs]"
    using lt by (simp add: upt_conv_Cons)
  have m: "(if mean_spec \<alpha> xs (Suc n) \<noteq> xs ! Suc n
          then (W_spec \<alpha> (Suc n) * (1 - \<alpha>) * mean_spec \<alpha> xs (Suc n) + 1 * xs ! Suc n)
               / (W_spec \<alpha> (Suc n) * (1 - \<alpha>) + 1)
          else mean_spec \<alpha> xs (Suc n)) = mean_spec \<alpha> xs (Suc (Suc n))"
    unfolding mean_spec_Suc[OF assms] by (simp add: mean_spec_def)
  have w: "W_spec \<alpha> (Suc n) * (1 - \<alpha>) + 1 = W_spec \<alpha> (Suc (Suc n))"
    by simp
  have ih: "ewm_mean_loop (1 - \<alpha>) (mean_spec \<alpha> xs (Suc (Suc n))) (W_spec \<alpha> (Suc (Suc n)))
       (drop (Suc (Suc n)) xs)
     = map (\<lambda>i. Some (mean_spec \<alpha> xs (Suc i))) [Suc (Suc n)..<length xs]"
    using Suc(1)[of "Suc n"] Suc(2) lt by simp
  have "ewm_mean_loop (1 - \<alpha>) (mean_spec \<alpha> xs (Suc n)) (W_spec \<alpha> (Suc n))
          (xs ! Suc n # drop (Suc (Suc n)) xs)
        = Some (mean_spec \<alpha> xs (Suc (Suc n)))
          # ewm_mean_loop (1 - \<alpha>) (mean_spec \<alpha> xs (Suc (Suc n)))
              (W_spec \<alpha> (Suc (Suc n))) (drop (Suc (Suc n)) xs)"
    by (simp only: ewm_mean_loop.simps Let_def m) (simp only: w)
  then show ?case
    by (simp only: d u ih list.map)
qed

lemma ewm_mean_spec:
  assumes "0 < \<alpha>" and "\<alpha> \<le> 1"
  shows "ewm_mean (1 / \<alpha> - 1) xs = map (\<lambda>i. Some (mean_spec \<alpha> xs (Suc i))) [0..<length xs]"
proof (cases xs)
  case Nil
  then show ?thesis by (simp add: ewm_mean_def)
next
  case (Cons x rest)
  have f: "1 - 1 / (1 + (1 / \<alpha> - 1)) = 1 - \<alpha>" using assms by simp
  have m1: "mean_spec \<alpha> xs (Suc 0) = x" by (simp add: mean_spec_def Cons)
  have w1: "W_spec \<alpha> (Suc 0) = 1" by simp
  have "ewm_mean_loop (1 - \<alpha>) x 1 rest
        = map (\<lambda>i. Some (mean_spec \<alpha> xs (Suc i))) [Suc 0..<length xs]"
    using ewm_mean_loop_spec[OF assms(2), of 0 xs] unfolding m1 w1 by (simp add: Cons)
  moreover have "[0..<length xs] = 0 # [Suc 0..<length xs]"
    by (subst upt_rec) (simp add: Cons)
  ultimately show ?thesis
    unfolding ewm_mean_def f Cons list.case using m1 by (simp add: Cons)
qed

lemma cov_step_num:
  fixes W f m x c :: real
  assumes "0 < W" and "0 \<le> f"
  shows "W * f * (c + (m - (W * f * m + x) / (W * f + 1)) * (m - (W * f * m + x) / (W * f + 1)))
         + 1 * ((x - (W * f * m + x) / (W * f + 1)) * (x - (W * f * m + x) / (W * f + 1)))
         = f * (c * W) + f * W / (W * f + 1) * (x - m)\<^sup>2"
proof -
  define W' where "W' = W * f + 1"
  define m' where "m' = (W * f * m + x) / W'"
  from assms have "0 \<le> W * f" by simp
  then have p: "0 < W'" unfolding W'_def by linarith
  have a: "m - m' = (m - x) / W'"
    using p unfolding m'_def by (simp add: field_simps W'_def)
  have b: "x - m' = W * f * (x - m) / W'"
    using p unfolding m'_def by (simp add: field_simps W'_def)
  have "W * f * (c + (m - m') * (m - m')) + 1 * ((x - m') * (x - m'))
        = f * (c * W) + W * f * (x - m)\<^sup>2 * (1 + W * f) / (W' * W')"
    unfolding a b using p by (simp add: field_simps power2_eq_square)
  also have "W * f * (x - m)\<^sup>2 * (1 + W * f) / (W' * W') = f * W / W' * (x - m)\<^sup>2"
  proof -
    have e: "1 + W * f = W'" by (simp add: W'_def)
    show ?thesis unfolding e using p by simp
  qed
  finally show ?thesis unfolding m'_def W'_def .
qed

lemma cov_step:
  fixes W f m x c :: real
  assumes "0 < W" and "0 \<le> f"
  shows "(W * f * (c + (m - (W * f * m + x) / (W * f + 1)) * (m - (W * f * m + x) / (W * f + 1)))
          + 1 * ((x - (W * f * m + x) / (W * f + 1)) * (x - (W * f * m + x) / (W * f + 1))))
         / (W * f + 1)
         = (f * (c * W) + f * W / (W * f + 1) * (x - m)\<^sup>2) / (W * f + 1)"
  by (simp only: cov_step_num[OF assms])

lemma var_out:
  fixes W Q D :: real
  assumes "0 < W"
  shows "(if 0 < W * W - Q then Some (W * W / (W * W - Q) * (D / W)) else None)
         = (if 0 < W - Q / W then Some (D / (W - Q / W)) else None)"
proof -
  have d: "W - Q / W = (W * W - Q) / W"
    using assms by (simp add: field_simps)
  have c: "0 < W - Q / W \<longleftrightarrow> 0 < W * W - Q"
    unfolding d using assms by (simp add: zero_less_divide_iff)
  have "W * W / (W * W - Q) * (D / W) = D / (W - Q / W)"
    unfolding d using assms by simp
  with c show ?thesis by simp
qed

lemma ewmcov_loop_Cons_spec:
  assumes "\<alpha> \<le> 1"
  shows "ewmcov_loop (1 - \<alpha>) (spec_state \<alpha> xs (Suc n)) (xs ! Suc n # rest)
         = var_spec \<alpha> xs (Suc (Suc n))
           # ewmcov_loop (1 - \<alpha>) (spec_state \<alpha> xs (Suc (Suc n))) rest"
proof -
  let ?W = "W_spec \<alpha> (Suc n)" and ?m = "mean_spec \<alpha> xs (Suc n)"
  let ?D = "D_spec \<alpha> xs (Suc n)" and ?Q = "Wsq_spec \<alpha> (Suc n)"
  let ?x = "xs ! Suc n" and ?f = "1 - \<alpha>"
  have Wpos: "0 < ?W" using W_spec_ge1[OF assms, of n] by linarith
  have f0: "0 \<le> ?f" using assms by simp
  have W'pos: "0 < W_spec \<alpha> (Suc (Suc n))"
    using W_spec_ge1[OF assms, of "Suc n"] by linarith
  have e1: "?W * ?f + 1 = W_spec \<alpha> (Suc (Suc n))"
    by (simp only: W_spec.simps(2)[of \<alpha> "Suc n"]) (simp only: ac_simps)
  have e2: "?Q * (?f * ?f) + 1 * 1 = Wsq_spec \<alpha> (Suc (Suc n))"
    by (simp only: Wsq_spec.simps(2)[of \<alpha> "Suc n"] power2_eq_square mult_1) (simp only: ac_simps)
  have wm: "?W * ?f * ?m = ?f * S_spec \<alpha> xs (Suc n)"
    using Wpos by (simp add: mean_spec_def del: spec_Suc)
  have mean2: "mean_spec \<alpha> xs (Suc (Suc n)) = (?W * ?f * ?m + ?x) / (?W * ?f + 1)"
    unfolding wm
    by (simp only: mean_spec_def[of \<alpha> xs "Suc (Suc n)"] S_spec.simps W_spec.simps)
       (simp only: ac_simps)
  have mif: "(if ?m \<noteq> ?x then (?W * ?f * ?m + 1 * ?x) / (?W * ?f + 1) else ?m)
             = (?W * ?f * ?m + ?x) / (?W * ?f + 1)"
  proof -
    have "(if ?m \<noteq> ?x then (?W * ?f * ?m + 1 * ?x) / (?W * ?f + 1) else ?m)
          = (?x + ?f * S_spec \<alpha> xs (Suc n)) / (1 + ?f * ?W)"
      by (rule mean_spec_Suc[OF assms])
    also have "\<dots> = (?W * ?f * ?m + ?x) / (?W * ?f + 1)"
      unfolding wm by (simp only: ac_simps)
    finally show ?thesis .
  qed
  have dw: "?D / ?W * ?W = ?D"
    using Wpos by (simp del: spec_Suc)
  have cv: "(?f * (?D / ?W * ?W) + ?f * ?W / (?W * ?f + 1) * (?x - ?m)\<^sup>2) / (?W * ?f + 1)
            = D_spec \<alpha> xs (Suc (Suc n)) / W_spec \<alpha> (Suc (Suc n))"
    unfolding dw
    by (simp only: D_spec.simps(2)[of \<alpha> xs "Suc n"] W_spec.simps(2)[of \<alpha> "Suc n"])
       (simp only: ac_simps)
  have out: "(if 0 < W_spec \<alpha> (Suc (Suc n)) * W_spec \<alpha> (Suc (Suc n)) - Wsq_spec \<alpha> (Suc (Suc n))
        then Some (W_spec \<alpha> (Suc (Suc n)) * W_spec \<alpha> (Suc (Suc n))
                   / (W_spec \<alpha> (Suc (Suc n)) * W_spec \<alpha> (Suc (Suc n)) - Wsq_spec \<alpha> (Suc (Suc n)))
                   * (D_spec \<alpha> xs (Suc (Suc n)) / W_spec \<alpha> (Suc (Suc n))))
        else None) = var_spec \<alpha> xs (Suc (Suc n))"
    unfolding var_spec_def var_denom_def by (rule var_out[OF W'pos])
  show ?thesis
    unfolding spec_state_def
    apply (simp only: ewmcov_loop.simps Let_def ewmcov_state.select_convs mif)
    apply (simp only: cov_step[OF Wpos f0])
    apply (simp only: cv flip: mean2)
    apply (simp only: e1 e2 out)
    done
qed

lemma ewmcov_loop_spec:
  assumes "\<alpha> \<le> 1"
  shows "Suc n \<le> length xs \<Longrightarrow>
     ewmcov_loop (1 - \<alpha>) (spec_state \<alpha> xs (Suc n)) (drop (Suc n) xs)
     = map (\<lambda>i. var_spec \<alpha> xs (Suc i)) [Suc n..<length xs]"
proof (induction "length xs - Suc n" arbitrary: n)
  case 0
  then show ?case by simp
next
  case (Suc k)
  then have lt: "Suc n < length xs" by simp
  then have d: "drop (Suc n) xs = xs ! Suc n # drop (Suc (Suc n)) xs"
    by (simp add: Cons_nth_drop_Suc)
  have u: "[Suc n..<length xs] = Suc n # [Suc (Suc n)..<length xs]"
    using lt by (simp add: upt_conv_Cons)
  have ih: "ewmcov_loop (1 - \<alpha>) (spec_state \<alpha> xs (Suc (Suc n))) (drop (Suc (Suc n)) xs)
     = map (\<lambda>i. var_spec \<alpha> xs (Suc i)) [Suc (Suc n)..<length xs]"
    using Suc(1)[of "Suc n"] Suc(2) lt by simp
  show ?case
    by (simp only: d u ewmcov_loop_Cons_spec[OF assms] ih list.map)
qed

lemma var_spec_1: "var_spec \<alpha> xs (Suc 0) = None"
  by (simp add: var_spec_def var_denom_def)

lemma ewm_var_spec:
  assumes "0 < \<alpha>" and "\<alpha> \<le> 1"
  shows "ewm_var (1 / \<alpha> - 1) xs = map (\<lambda>i. var_spec \<alpha> xs (Suc i)) [0..<length xs]"
proof (cases xs)
  case Nil
  then show ?thesis by (simp add: ewm_var_def)
next
  case (Cons x rest)
  have f: "1 - 1 / (1 + (1 / \<alpha> - 1)) = 1 - \<alpha>" using assms by simp
  have s1: "spec_state \<alpha> xs (Suc 0)
            = \<lparr>mean_x = x, cov = 0, sum_wt = 1, sum_wt2 = 1, old_wt = 1\<rparr>"
    by (simp add: spec_state_def mean_spec_def Cons)
  have "ewmcov_loop (1 - \<alpha>) \<lparr>mean_x = x, cov = 0, sum_wt = 1, sum_wt2 = 1, old_wt = 1\<rparr> rest
        = map (\<lambda>i. var_spec \<alpha> xs (Suc i)) [Suc 0..<length xs]"
    using ewmcov_loop_spec[OF assms(2), of 0 xs] unfolding s1 by (simp add: Cons)
  moreover have "[0..<length xs] = 0 # [Suc 0..<length xs]"
    by (subst upt_rec) (simp add: Cons)
  ultimately show ?thesis
    unfolding ewm_var_def f Cons list.case using var_spec_1 by (simp add: Cons)
qed

lemma W_spec_nonneg: "\<alpha> \<le> 1 \<Longrightarrow> 0 \<le> W_spec \<alpha> n"
  using W_spec_ge1[of \<alpha> "n - 1"] by (cases n) simp_all

lemma D_spec_nonneg: "\<alpha> \<le> 1 \<Longrightarrow> 0 \<le> D_spec \<alpha> xs n"
proof (induction n)
  case 0
  then show ?case by simp
next
  case (Suc n)
  have "0 \<le> W_spec \<alpha> n" "0 \<le> W_spec \<alpha> (Suc n)"
    using Suc.prems W_spec_nonneg by blast+
  moreover have "0 \<le> 1 - \<alpha>" using Suc.prems by simp
  ultimately have "0 \<le> (1 - \<alpha>) * W_spec \<alpha> n / W_spec \<alpha> (Suc n) * (xs ! n - mean_spec \<alpha> xs n)\<^sup>2"
    by (simp del: spec_Suc)
  moreover have "0 \<le> (1 - \<alpha>) * D_spec \<alpha> xs n"
    using Suc by simp
  ultimately show ?case by (simp only: D_spec.simps)
qed

lemma var_spec_nonneg:
  assumes "\<alpha> \<le> 1" and "var_spec \<alpha> xs n = Some v"
  shows "0 \<le> v"
  using assms D_spec_nonneg[OF assms(1), of xs n]
  by (auto simp: var_spec_def split: if_splits)

lemma zsqrt_var_spec:
  assumes "\<alpha> \<le> 1"
  shows "zsqrt (var_spec \<alpha> xs n) = std_spec \<alpha> xs n"
proof (cases "var_spec \<alpha> xs n")
  case None
  then show ?thesis by (simp add: std_spec_def)
next
  case (Some v)
  with var_spec_nonneg[OF assms Some] show ?thesis by (simp add: std_spec_def)
qed

lemma ewm_std_spec:
  assumes "0 < \<alpha>" and "\<alpha> \<le> 1"
  shows "ewm_std (1 / \<alpha> - 1) xs = map (\<lambda>i. std_spec \<alpha> xs (Suc i)) [0..<length xs]"
  unfolding ewm_std_def ewm_var_spec[OF assms]
  by (simp add: zsqrt_var_spec[OF assms(2)] del: spec_Suc)

lemma W_sq_gap:
  "W_spec \<alpha> (Suc n) * W_spec \<alpha> (Suc n) - Wsq_spec \<alpha> (Suc n)
   = 2 * (1 - \<alpha>) * W_spec \<alpha> n
     + (1 - \<alpha>)\<^sup>2 * (W_spec \<alpha> n * W_spec \<alpha> n - Wsq_spec \<alpha> n)"
  by (simp add: power2_eq_square algebra_simps)

lemma W_sq_gap_nonneg: "\<alpha> \<le> 1 \<Longrightarrow> 0 \<le> W_spec \<alpha> n * W_spec \<alpha> n - Wsq_spec \<alpha> n"
proof (induction n)
  case 0
  then show ?case by simp
next
  case (Suc n)
  have "0 \<le> 2 * (1 - \<alpha>) * W_spec \<alpha> n"
    using Suc.prems W_spec_nonneg[of \<alpha> n] by simp
  moreover have "0 \<le> (1 - \<alpha>)\<^sup>2 * (W_spec \<alpha> n * W_spec \<alpha> n - Wsq_spec \<alpha> n)"
    using Suc by simp
  ultimately show ?case unfolding W_sq_gap by linarith
qed

lemma W_sq_gap_pos:
  assumes "\<alpha> < 1"
  shows "0 < W_spec \<alpha> (Suc (Suc n)) * W_spec \<alpha> (Suc (Suc n)) - Wsq_spec \<alpha> (Suc (Suc n))"
proof -
  have "0 < W_spec \<alpha> (Suc n)" using W_spec_ge1[of \<alpha> n] assms by simp
  then have "0 < 2 * (1 - \<alpha>) * W_spec \<alpha> (Suc n)"
    using assms by (simp del: spec_Suc)
  moreover have "0 \<le> (1 - \<alpha>)\<^sup>2 * (W_spec \<alpha> (Suc n) * W_spec \<alpha> (Suc n) - Wsq_spec \<alpha> (Suc n))"
    using W_sq_gap_nonneg[of \<alpha> "Suc n"] assms by (simp del: spec_Suc)
  ultimately show ?thesis unfolding W_sq_gap[of \<alpha> "Suc n"] by linarith
qed

lemma var_denom_gap:
  assumes "\<alpha> \<le> 1"
  shows "0 < var_denom \<alpha> (Suc n)
         \<longleftrightarrow> 0 < W_spec \<alpha> (Suc n) * W_spec \<alpha> (Suc n) - Wsq_spec \<alpha> (Suc n)"
proof -
  have p: "0 < W_spec \<alpha> (Suc n)" using W_spec_ge1[OF assms, of n] by linarith
  have "var_denom \<alpha> (Suc n)
        = (W_spec \<alpha> (Suc n) * W_spec \<alpha> (Suc n) - Wsq_spec \<alpha> (Suc n)) / W_spec \<alpha> (Suc n)"
    unfolding var_denom_def using p by (simp add: field_simps del: spec_Suc)
  then show ?thesis using p by (simp add: zero_less_divide_iff del: spec_Suc)
qed

lemma var_denom_pos_iff:
  assumes "\<alpha> < 1"
  shows "0 < var_denom \<alpha> i \<longleftrightarrow> 2 \<le> i"
proof (cases i)
  case 0
  then show ?thesis by (simp add: var_denom_def)
next
  case (Suc j)
  show ?thesis
  proof (cases j)
    case 0
    with Suc show ?thesis by (simp add: var_denom_def)
  next
    case (Suc k)
    have "0 < var_denom \<alpha> (Suc (Suc k))"
      using var_denom_gap[of \<alpha> "Suc k"] W_sq_gap_pos[OF assms, of k] assms by simp
    with Suc \<open>i = Suc j\<close> show ?thesis by simp
  qed
qed

lemma var_denom_alpha1: "var_denom 1 n = 0"
  by (cases n) (simp_all add: var_denom_def)

lemma mean_spec_alpha1: "mean_spec 1 xs (Suc n) = xs ! n"
  by (simp add: mean_spec_def)

lemma S_spec_sum: "S_spec \<alpha> xs (Suc i) = (\<Sum>j\<le>i. (1 - \<alpha>) ^ (i - j) * xs ! j)"
proof (induction i)
  case 0
  then show ?case by simp
next
  case (Suc i)
  have "(\<Sum>j\<le>Suc i. (1 - \<alpha>) ^ (Suc i - j) * xs ! j)
        = xs ! Suc i + (\<Sum>j\<le>i. (1 - \<alpha>) ^ (Suc i - j) * xs ! j)"
    by simp
  also have "(\<Sum>j\<le>i. (1 - \<alpha>) ^ (Suc i - j) * xs ! j)
             = (\<Sum>j\<le>i. (1 - \<alpha>) * ((1 - \<alpha>) ^ (i - j) * xs ! j))"
    by (rule sum.cong) (simp_all add: Suc_diff_le)
  also have "\<dots> = (1 - \<alpha>) * S_spec \<alpha> xs (Suc i)"
    unfolding Suc.IH by (simp add: sum_distrib_left)
  finally show ?case by (simp only: S_spec.simps(2)[of \<alpha> xs "Suc i"])
qed

lemma W_spec_sum: "W_spec \<alpha> (Suc i) = (\<Sum>j\<le>i. (1 - \<alpha>) ^ (i - j))"
proof (induction i)
  case 0
  then show ?case by simp
next
  case (Suc i)
  have "(\<Sum>j\<le>Suc i. (1 - \<alpha>) ^ (Suc i - j))
        = 1 + (\<Sum>j\<le>i. (1 - \<alpha>) ^ (Suc i - j))"
    by simp
  also have "(\<Sum>j\<le>i. (1 - \<alpha>) ^ (Suc i - j)) = (\<Sum>j\<le>i. (1 - \<alpha>) * (1 - \<alpha>) ^ (i - j))"
    by (rule sum.cong) (simp_all add: Suc_diff_le)
  also have "\<dots> = (1 - \<alpha>) * W_spec \<alpha> (Suc i)"
    unfolding Suc.IH by (simp add: sum_distrib_left)
  finally show ?case by (simp only: W_spec.simps(2)[of \<alpha> "Suc i"])
qed

lemma shift_mean:
  fixes w x :: "nat \<Rightarrow> real"
  assumes "(\<Sum>j\<in>A. w j * x j) = m * (\<Sum>j\<in>A. w j)"
  shows "(\<Sum>j\<in>A. w j * (x j - m')\<^sup>2)
         = (\<Sum>j\<in>A. w j * (x j - m)\<^sup>2) + (\<Sum>j\<in>A. w j) * (m - m')\<^sup>2"
proof -
  have "(\<Sum>j\<in>A. w j * (x j - m')\<^sup>2)
        = (\<Sum>j\<in>A. w j * (x j - m)\<^sup>2 + 2 * (m - m') * (w j * x j - m * w j)
                  + (m - m')\<^sup>2 * w j)"
    by (rule sum.cong) (simp_all add: power2_eq_square algebra_simps)
  also have "\<dots> = (\<Sum>j\<in>A. w j * (x j - m)\<^sup>2)
        + 2 * (m - m') * ((\<Sum>j\<in>A. w j * x j) - m * (\<Sum>j\<in>A. w j))
        + (m - m')\<^sup>2 * (\<Sum>j\<in>A. w j)"
    by (simp only: sum.distrib sum_subtractf flip: sum_distrib_left)
  finally show ?thesis using assms by simp
qed

lemma D_spec_sum:
  assumes "\<alpha> \<le> 1"
  shows "D_spec \<alpha> xs (Suc i)
         = (\<Sum>j\<le>i. (1 - \<alpha>) ^ (i - j) * (xs ! j - mean_spec \<alpha> xs (Suc i))\<^sup>2)"
proof (induction i)
  case 0
  then show ?case by (simp add: mean_spec_def)
next
  case (Suc i)
  let ?f = "1 - \<alpha>" and ?x = "xs ! Suc i"
  let ?W = "W_spec \<alpha> (Suc i)" and ?m = "mean_spec \<alpha> xs (Suc i)"
  let ?m' = "mean_spec \<alpha> xs (Suc (Suc i))"
  let ?D = "D_spec \<alpha> xs (Suc i)"
  have Wpos: "0 < ?W" using W_spec_ge1[OF assms, of i] by linarith
  have f0: "0 \<le> ?f" using assms by simp
  have wm: "?W * ?f * ?m = ?f * S_spec \<alpha> xs (Suc i)"
    using Wpos by (simp add: mean_spec_def del: spec_Suc)
  have m': "?m' = (?W * ?f * ?m + ?x) / (?W * ?f + 1)"
    unfolding wm
    by (simp only: mean_spec_def[of \<alpha> xs "Suc (Suc i)"] S_spec.simps W_spec.simps)
       (simp only: ac_simps)
  have bal: "(\<Sum>j\<le>i. ?f ^ (i - j) * xs ! j) = ?m * (\<Sum>j\<le>i. ?f ^ (i - j))"
    unfolding S_spec_sum[symmetric] W_spec_sum[symmetric] mean_spec_def
    using Wpos by (simp del: spec_Suc)
  have "(\<Sum>j\<le>Suc i. ?f ^ (Suc i - j) * (xs ! j - ?m')\<^sup>2)
        = (?x - ?m')\<^sup>2 + (\<Sum>j\<le>i. ?f ^ (Suc i - j) * (xs ! j - ?m')\<^sup>2)"
    by simp
  also have "(\<Sum>j\<le>i. ?f ^ (Suc i - j) * (xs ! j - ?m')\<^sup>2)
             = (\<Sum>j\<le>i. ?f * (?f ^ (i - j) * (xs ! j - ?m')\<^sup>2))"
    by (rule sum.cong) (simp_all add: Suc_diff_le)
  also have "\<dots> = ?f * (\<Sum>j\<le>i. ?f ^ (i - j) * (xs ! j - ?m')\<^sup>2)"
    by (simp add: sum_distrib_left)
  also have "(\<Sum>j\<le>i. ?f ^ (i - j) * (xs ! j - ?m')\<^sup>2)
             = ?D + ?W * (?m - ?m')\<^sup>2"
  proof -
    have "(\<Sum>j\<le>i. ?f ^ (i - j) * (xs ! j - ?m')\<^sup>2)
          = (\<Sum>j\<le>i. ?f ^ (i - j) * (xs ! j - ?m)\<^sup>2)
            + (\<Sum>j\<le>i. ?f ^ (i - j)) * (?m - ?m')\<^sup>2"
      by (rule shift_mean[OF bal])
    then show ?thesis by (simp only: Suc.IH W_spec_sum)
  qed
  finally have "(\<Sum>j\<le>Suc i. ?f ^ (Suc i - j) * (xs ! j - ?m')\<^sup>2)
        = ?W * ?f * (?D / ?W + (?m - ?m') * (?m - ?m')) + 1 * ((?x - ?m') * (?x - ?m'))"
    using Wpos by (simp add: power2_eq_square algebra_simps del: spec_Suc)
  also have "\<dots> = ?f * (?D / ?W * ?W) + ?f * ?W / (?W * ?f + 1) * (?x - ?m)\<^sup>2"
    unfolding m' by (rule cov_step_num[OF Wpos f0])
  also have "\<dots> = D_spec \<alpha> xs (Suc (Suc i))"
    using Wpos
    by (simp only: D_spec.simps(2)[of \<alpha> xs "Suc i"] W_spec.simps(2)[of \<alpha> "Suc i"])
       (simp add: ac_simps del: spec_Suc)
  finally show ?case by simp
qed

subsection \<open>The smoothed table\<close>

lemma length_ewm_mean_loop: "length (ewm_mean_loop f w ow vals) = length vals"
  by (induction vals arbitrary: w ow) (simp_all add: Let_def)

lemma length_ewm_mean: "length (ewm_mean com vals) = length vals"
  by (cases vals) (simp_all add: ewm_mean_def length_ewm_mean_loop)

lemma length_ewmcov_loop: "length (ewmcov_loop f st vals) = length vals"
  by (induction vals arbitrary: st) (simp_all add: Let_def)

lemma length_ewm_std: "length (ewm_std com vals) = length vals"
  by (cases vals) (simp_all add: ewm_std_def ewm_var_def length_ewmcov_loop)

lemma ewm_std_first: "vals \<noteq> [] \<Longrightarrow> ewm_std com vals ! 0 = None"
  by (cases vals) (simp_all add: ewm_std_def ewm_var_def)

lemma length_ewm_columns: "length (ewm_columns a com df) = length df"
  by (simp add: ewm_columns_def length_ewm_mean length_ewm_std)

lemma nth_ewm_columns:
  "i < length df \<Longrightarrow>
   ewm_columns a com df ! i =
     \<lparr>timestamp = fst (df ! i), size_col = snd (df ! i), alpha = a,
      ewma = ewm_mean com (map snd df) ! i, ewmstd = ewm_std com (map snd df) ! i\<rparr>"
  by (simp add: ewm_columns_def length_ewm_mean length_ewm_std split_beta)

lemma ewm_com_valid: "0 < a \<Longrightarrow> a \<le> 1 \<Longrightarrow> ewm_com a = Inr (1 / a - 1)"
  by (simp add: ewm_com_def)

lemma ewm_com_Inr: "ewm_com a = Inr com \<Longrightarrow> com = 1 / a - 1"
  by (simp add: ewm_com_def split: if_splits)

lemma assign_ewm_Inr: "assign_ewm a df = Inr rows \<Longrightarrow> rows = ewm_columns a (1 / a - 1) df"
  by (auto simp: assign_ewm_def split: sum.splits dest: ewm_com_Inr)

lemma assign_ewm_valid:
  "0 < a \<Longrightarrow> a \<le> 1 \<Longrightarrow> assign_ewm a df = Inr (ewm_columns a (1 / a - 1) df)"
  by (simp add: assign_ewm_def ewm_com_valid)

lemma ewm_frames_Inr:
  "ewm_frames as df = Inr frames \<Longrightarrow> frames = map (\<lambda>a. ewm_columns a (1 / a - 1) df) as"
proof (induction as arbitrary: frames)
  case Nil
  then show ?case by simp
next
  case (Cons a as)
  then show ?case
    by (auto split: sum.splits dest: assign_ewm_Inr)
qed

lemma ewm_frames_valid:
  "\<forall>a\<in>set as. 0 < a \<and> a \<le> 1 \<Longrightarrow>
   ewm_frames as df = Inr (map (\<lambda>a. ewm_columns a (1 / a - 1) df) as)"
  by (induction as) (simp_all add: assign_ewm_valid)

lemma df_ewm_Inr:
  assumes "df_ewm as df = Inr out"
  shows "as \<noteq> []" and "out = dropna (concat (map (\<lambda>a. ewm_columns a (1 / a - 1) df) as))"
proof -
  from assms obtain frames where f: "ewm_frames as df = Inr frames"
    and c: "pd_concat frames = Inr (concat frames)" and o: "out = dropna (concat frames)"
    by (auto simp: df_ewm_def pd_concat_def split: sum.splits if_splits)
  from c have "frames \<noteq> []" by (simp add: pd_concat_def split: if_splits)
  with ewm_frames_Inr[OF f] show "as \<noteq> []" by auto
  from ewm_frames_Inr[OF f] o
  show "out = dropna (concat (map (\<lambda>a. ewm_columns a (1 / a - 1) df) as))" by simp
qed

lemma df_ewm_valid:
  assumes "as \<noteq> []" and "\<forall>a\<in>set as. 0 < a \<and> a \<le> 1"
  shows "df_ewm as df = Inr (dropna (concat (map (\<lambda>a. ewm_columns a (1 / a - 1) df) as)))"
  using assms by (simp add: df_ewm_def ewm_frames_valid pd_concat_def)

lemma in_dropna: "r \<in> set (dropna rows) \<longleftrightarrow> r \<in> set rows \<and> ewma r \<noteq> None \<and> ewmstd r \<noteq> None"
  by (auto simp: dropna_def)

lemma in_ewm_columns:
  "r \<in> set (ewm_columns a com df) \<Longrightarrow>
   \<exists>i<length df. r = \<lparr>timestamp = fst (df ! i), size_col = snd (df ! i), alpha = a,
      ewma = ewm_mean com (map snd df) ! i, ewmstd = ewm_std com (map snd df) ! i\<rparr>"
  by (metis in_set_conv_nth length_ewm_columns nth_ewm_columns)

lemma dropped_index:
  assumes out: "df_ewm as df = Inr out" and d: "distinct (map fst df)"
    and i: "i < length df" and n: "ewm_std (1 / a - 1) (map snd df) ! i = None"
    and r: "r \<in> set out" and t: "timestamp r = fst (df ! i)"
  shows "alpha r \<noteq> a"
proof
  assume ar: "alpha r = a"
  from r df_ewm_Inr(2)[OF out] obtain a' where a': "a' \<in> set as"
    and rin: "r \<in> set (ewm_columns a' (1 / a' - 1) df)" and ns: "ewmstd r \<noteq> None"
    by (auto simp: in_dropna)
  from in_ewm_columns[OF rin] obtain j where j: "j < length df"
    and rj: "r = \<lparr>timestamp = fst (df ! j), size_col = snd (df ! j), alpha = a',
      ewma = ewm_mean (1 / a' - 1) (map snd df) ! j,
      ewmstd = ewm_std (1 / a' - 1) (map snd df) ! j\<rparr>"
    by blast
  from rj ar have "a' = a" by simp
  from rj t have "map fst df ! j = map fst df ! i" using i j by simp
  with d i j have "j = i"
    using nth_eq_iff_index_eq[of "map fst df" j i] by (simp del: nth_map)
  with rj \<open>a' = a\<close> n have "ewmstd r = None" by simp
  with ns show False by simp
qed

lemma first_dropped:
  assumes out: "df_ewm as df = Inr out" and d: "distinct (map fst df)"
    and ne: "df \<noteq> []" and r: "r \<in> set out"
  shows "timestamp r \<noteq> fst (hd df)"
proof
  assume t: "timestamp r = fst (hd df)"
  from ne have i: "0 < length df" and h: "hd df = df ! 0" by (simp_all add: hd_conv_nth)
  have "ewm_std (1 / alpha r - 1) (map snd df) ! 0 = None"
    using ne by (simp add: ewm_std_first)
  from dropped_index[OF out d i this r] t h show False by simp
qed

lemma distinct_df_exec_delta: "distinct (map fst (df_exec_delta execs))"
  using sorted_groupby_sum[of "assign_signed_size execs"]
  by (simp add: df_exec_delta_def strict_sorted_iff)

text \<open>
  Claim C5. For every flow series and every list of decay parameters: every row of the
  smoothed table has a defined mean and a defined standard deviation; for every decay
  parameter and every position of the flow series at which the standard deviation is
  undefined, the table has no row with that timestamp and that decay parameter; and the
  first timestamp of the flow series is the timestamp of no row, whatever the decay
  parameter. The table is produced whenever the list of decay parameters is not empty
  and each of them lies in \<open>(0, 1]\<close>.
\<close>

theorem C5_emitted_rows_defined:
  "(\<forall>out. df_ewm as (df_exec_delta execs) = Inr out \<longrightarrow>
      (\<forall>r\<in>set out. ewma r \<noteq> None \<and> ewmstd r \<noteq> None)
      \<and> (\<forall>a. \<forall>i<length (df_exec_delta execs).
            ewm_std (1 / a - 1) (map snd (df_exec_delta execs)) ! i = None \<longrightarrow>
            (\<forall>r\<in>set out. \<not> (timestamp r = fst (df_exec_delta execs ! i) \<and> alpha r = a)))
      \<and> (df_exec_delta execs \<noteq> [] \<longrightarrow>
            (\<forall>r\<in>set out. timestamp r \<noteq> fst (hd (df_exec_delta execs)))))
   \<and> (as \<noteq> [] \<and> (\<forall>a\<in>set as. 0 < a \<and> a \<le> 1) \<longrightarrow>
        (\<exists>out. df_ewm as (df_exec_delta execs) = Inr out))"
proof -
  let ?df = "df_exec_delta execs"
  have d: "distinct (map fst ?df)" by (rule distinct_df_exec_delta)
  have "\<forall>r\<in>set out. ewma r \<noteq> None \<and> ewmstd r \<noteq> None"
    if "df_ewm as ?df = Inr out" for out
    using df_ewm_Inr(2)[OF that] by (simp add: in_dropna)
  moreover have "\<forall>a. \<forall>i<length ?df. ewm_std (1 / a - 1) (map snd ?df) ! i = None \<longrightarrow>
            (\<forall>r\<in>set out. \<not> (timestamp r = fst (?df ! i) \<and> alpha r = a))"
    if "df_ewm as ?df = Inr out" for out
    using dropped_index[OF that d] by blast
  moreover have "?df \<noteq> [] \<longrightarrow> (\<forall>r\<in>set out. timestamp r \<noteq> fst (hd ?df))"
    if "df_ewm as ?df = Inr out" for out
    using first_dropped[OF that d] by blast
  moreover have "as \<noteq> [] \<and> (\<forall>a\<in>set as. 0 < a \<and> a \<le> 1) \<longrightarrow>
        (\<exists>out. df_ewm as ?df = Inr out)"
    using df_ewm_valid[of as ?df] by blast
  ultimately show ?thesis by blast
qed

theorem C5_emitted_rows_defined_witness:
  "alphas \<noteq> [] \<and> list_all (\<lambda>a. 0 < a \<and> a \<le> 1) alphas
   \<and> df_exec_delta
        [\<lparr>exec_date = (1::nat), price = 100, side = ''BUY'', exec_size = 1\<rparr>,
         \<lparr>exec_date = 2, price = 100, side = ''SELL'', exec_size = 1\<rparr>] = [(1, 1), (2, - 1)]
   \<and> (\<exists>out. df_ewm alphas [(1::nat, 1), (2, - 1)] = Inr out
         \<and> (\<forall>r\<in>set out. ewma r \<noteq> None \<and> ewmstd r \<noteq> None \<and> timestamp r \<noteq> 1))"
proof -
  have h: "alphas \<noteq> []" "\<forall>a\<in>set alphas. 0 < a \<and> a \<le> 1"
    by (simp_all add: alphas_def)
  have d: "df_exec_delta
        [\<lparr>exec_date = (1::nat), price = 100, side = ''BUY'', exec_size = 1\<rparr>,
         \<lparr>exec_date = 2, price = 100, side = ''SELL'', exec_size = 1\<rparr>] = [(1, 1), (2, - 1)]"
    by (simp add: df_exec_delta_def assign_signed_size_def signed_size_def groupby_sum_def)
  from C5_emitted_rows_defined[of alphas
        "[\<lparr>exec_date = (1::nat), price = 100, side = ''BUY'', exec_size = 1\<rparr>,
         \<lparr>exec_date = 2, price = 100, side = ''SELL'', exec_size = 1\<rparr>]"] h
  obtain out where o: "df_ewm alphas [(1::nat, 1), (2, - 1)] = Inr out"
    and p: "\<forall>r\<in>set out. ewma r \<noteq> None \<and> ewmstd r \<noteq> None"
    and q: "\<forall>r\<in>set out. timestamp r \<noteq> fst (hd [(1::nat, 1::real), (2, - 1)])"
    unfolding d by auto
  from q have "\<forall>r\<in>set out. timestamp r \<noteq> 1" by simp
  moreover have "list_all (\<lambda>a. 0 < a \<and> a \<le> 1) alphas"
    using h(2) by (simp add: list_all_iff)
  ultimately show ?thesis using h(1) d o p by blast
qed

subsection \<open>Claims on the smoothing\<close>

lemma W_spec_closed: "\<alpha> * W_spec \<alpha> n = 1 - (1 - \<alpha>) ^ n"
proof (induction n)
  case 0
  then show ?case by simp
next
  case (Suc n)
  have "\<alpha> * W_spec \<alpha> (Suc n) = \<alpha> + (1 - \<alpha>) * (\<alpha> * W_spec \<alpha> n)"
    by (simp add: algebra_simps)
  also have "\<dots> = 1 - (1 - \<alpha>) ^ Suc n"
    unfolding Suc.IH by (simp add: algebra_simps)
  finally show ?case .
qed

lemma W_spec_below_limit:
  assumes "0 < \<alpha>" and "\<alpha> < 1"
  shows "W_spec \<alpha> n < 1 / \<alpha>"
proof -
  have "0 < (1 - \<alpha>) ^ n" using assms by simp
  then have "\<alpha> * W_spec \<alpha> n < 1" unfolding W_spec_closed by simp
  then show ?thesis using assms by (simp add: field_simps)
qed

text \<open>
  Claim C1. For every flow series and every decay parameter \<open>\<alpha>\<close> with \<open>0 < \<alpha> \<le> 1\<close>, the
  column \<open>ewma\<close> holds at position \<open>i\<close> (counted from 0 here, so it is position \<open>i + 1\<close>
  of the specification) the quotient \<open>S / W\<close> of the two recurrences. \<open>S\<close> is the sum
  of the values up to \<open>i\<close> with weight \<open>(1 - \<alpha>) ^ (i - j)\<close> on value \<open>j\<close>, and \<open>W\<close> is the
  finite sum of these weights, which is below the limit \<open>1 / \<alpha>\<close> when \<open>\<alpha> < 1\<close>.
\<close>

theorem C1_weighted_mean:
  assumes "0 < \<alpha>" and "\<alpha> \<le> 1" and "i < length df"
  shows "(\<exists>rows. assign_ewm \<alpha> df = Inr rows \<and> length rows = length df
           \<and> ewma (rows ! i) = ewm_mean (1 / \<alpha> - 1) (map snd df) ! i)
    \<and> ewm_mean (1 / \<alpha> - 1) (map snd df) ! i
         = Some (S_spec \<alpha> (map snd df) (Suc i) / W_spec \<alpha> (Suc i))
    \<and> S_spec \<alpha> (map snd df) (Suc i) = (\<Sum>j\<le>i. (1 - \<alpha>) ^ (i - j) * map snd df ! j)
    \<and> W_spec \<alpha> (Suc i) = (\<Sum>j\<le>i. (1 - \<alpha>) ^ (i - j))
    \<and> (\<alpha> < 1 \<longrightarrow> W_spec \<alpha> (Suc i) < 1 / \<alpha>)"
proof -
  have "assign_ewm \<alpha> df = Inr (ewm_columns \<alpha> (1 / \<alpha> - 1) df)"
    using assms by (simp add: assign_ewm_valid)
  moreover have "ewma (ewm_columns \<alpha> (1 / \<alpha> - 1) df ! i)
                 = ewm_mean (1 / \<alpha> - 1) (map snd df) ! i"
    using assms(3) by (simp add: nth_ewm_columns)
  ultimately have a: "\<exists>rows. assign_ewm \<alpha> df = Inr rows \<and> length rows = length df
           \<and> ewma (rows ! i) = ewm_mean (1 / \<alpha> - 1) (map snd df) ! i"
    by (simp add: length_ewm_columns)
  have b: "ewm_mean (1 / \<alpha> - 1) (map snd df) ! i
         = Some (S_spec \<alpha> (map snd df) (Suc i) / W_spec \<alpha> (Suc i))"
    unfolding ewm_mean_spec[OF assms(1,2)] using assms(3)
    by (simp add: mean_spec_def del: spec_Suc)
  from a b S_spec_sum[of \<alpha> "map snd df" i] W_spec_sum[of \<alpha> i]
    W_spec_below_limit[OF assms(1), of "Suc i"]
  show ?thesis by blast
qed

theorem C1_weighted_mean_witness:
  "(0::real) < 1 / 2 \<and> (1::real) / 2 \<le> 1 \<and> (1::nat) < length [(1::nat, 1::real), (2, - 1), (3, 2)]
   \<and> ewm_mean (1 / (1 / 2) - 1) (map snd [(1::nat, 1::real), (2, - 1), (3, 2)]) ! 1
       = Some (- (1 / 3))
   \<and> S_spec (1 / 2) (map snd [(1::nat, 1::real), (2, - 1), (3, 2)]) (Suc 1) = - (1 / 2)
   \<and> W_spec (1 / 2) (Suc 1) = 3 / 2"
proof -
  have h: "(0::real) < 1 / 2" "(1::real) / 2 \<le> 1"
    "(1::nat) < length [(1::nat, 1::real), (2, - 1), (3, 2)]"
    by simp_all
  have s: "S_spec (1 / 2) (map snd [(1::nat, 1::real), (2, - 1), (3, 2)]) (Suc 1) = - (1 / 2)"
    and w: "W_spec (1 / 2) (Suc 1) = 3 / 2"
    by simp_all
  from C1_weighted_mean[OF h] have
    "ewm_mean (1 / (1 / 2) - 1) (map snd [(1::nat, 1::real), (2, - 1), (3, 2)]) ! 1
     = Some (S_spec (1 / 2) (map snd [(1::nat, 1::real), (2, - 1), (3, 2)]) (Suc 1)
             / W_spec (1 / 2) (Suc 1))"
    by blast
  then have "ewm_mean (1 / (1 / 2) - 1) (map snd [(1::nat, 1::real), (2, - 1), (3, 2)]) ! 1
       = Some (- (1 / 3))"
    unfolding s w by simp
  with h s w show ?thesis by blast
qed

text \<open>
  Claim C2. For every flow series and every decay parameter \<open>\<alpha>\<close> with \<open>0 < \<alpha> < 1\<close>, the
  column \<open>ewmstd\<close> holds at position \<open>i\<close> (counted from 0) the square root of
  \<open>D / (W - Wsq / W)\<close> when this denominator is positive, and is undefined otherwise.
  \<open>Wsq\<close> and \<open>D\<close> follow the recurrences of the specification, and \<open>D\<close> is the weighted
  sum of the squared deviations from the current weighted mean. The denominator is
  positive exactly from the second position on, so the standard deviation is defined
  exactly there and is undefined at the first position.
\<close>

theorem C2_weighted_std:
  assumes "0 < \<alpha>" and "\<alpha> < 1" and "i < length df"
  shows "(\<exists>rows. assign_ewm \<alpha> df = Inr rows \<and> length rows = length df
           \<and> ewmstd (rows ! i) = ewm_std (1 / \<alpha> - 1) (map snd df) ! i)
    \<and> ewm_std (1 / \<alpha> - 1) (map snd df) ! i
        = (if 0 < W_spec \<alpha> (Suc i) - Wsq_spec \<alpha> (Suc i) / W_spec \<alpha> (Suc i)
           then Some (sqrt (D_spec \<alpha> (map snd df) (Suc i)
                            / (W_spec \<alpha> (Suc i) - Wsq_spec \<alpha> (Suc i) / W_spec \<alpha> (Suc i))))
           else None)
    \<and> Wsq_spec \<alpha> (Suc i) = 1 + (1 - \<alpha>)\<^sup>2 * Wsq_spec \<alpha> i
    \<and> D_spec \<alpha> (map snd df) (Suc i)
        = (1 - \<alpha>) * D_spec \<alpha> (map snd df) i
          + (1 - \<alpha>) * W_spec \<alpha> i / W_spec \<alpha> (Suc i)
            * (map snd df ! i - mean_spec \<alpha> (map snd df) i)\<^sup>2
    \<and> D_spec \<alpha> (map snd df) (Suc i)
        = (\<Sum>j\<le>i. (1 - \<alpha>) ^ (i - j)
                    * (map snd df ! j - mean_spec \<alpha> (map snd df) (Suc i))\<^sup>2)
    \<and> (0 < W_spec \<alpha> (Suc i) - Wsq_spec \<alpha> (Suc i) / W_spec \<alpha> (Suc i) \<longleftrightarrow> 2 \<le> Suc i)
    \<and> (ewm_std (1 / \<alpha> - 1) (map snd df) ! i \<noteq> None \<longleftrightarrow> 2 \<le> Suc i)
    \<and> ewm_std (1 / \<alpha> - 1) (map snd df) ! 0 = None"
proof -
  have le: "\<alpha> \<le> 1" using assms(2) by simp
  have "assign_ewm \<alpha> df = Inr (ewm_columns \<alpha> (1 / \<alpha> - 1) df)"
    using assms(1) le by (simp add: assign_ewm_valid)
  moreover have "ewmstd (ewm_columns \<alpha> (1 / \<alpha> - 1) df ! i)
                 = ewm_std (1 / \<alpha> - 1) (map snd df) ! i"
    using assms(3) by (simp add: nth_ewm_columns)
  ultimately have a: "\<exists>rows. assign_ewm \<alpha> df = Inr rows \<and> length rows = length df
           \<and> ewmstd (rows ! i) = ewm_std (1 / \<alpha> - 1) (map snd df) ! i"
    by (simp add: length_ewm_columns)
  have b: "ewm_std (1 / \<alpha> - 1) (map snd df) ! i
        = (if 0 < W_spec \<alpha> (Suc i) - Wsq_spec \<alpha> (Suc i) / W_spec \<alpha> (Suc i)
           then Some (sqrt (D_spec \<alpha> (map snd df) (Suc i)
                            / (W_spec \<alpha> (Suc i) - Wsq_spec \<alpha> (Suc i) / W_spec \<alpha> (Suc i))))
           else None)"
    unfolding ewm_std_spec[OF assms(1) le] using assms(3)
    by (simp add: std_spec_def var_spec_def var_denom_def del: spec_Suc)
  have c: "0 < W_spec \<alpha> (Suc i) - Wsq_spec \<alpha> (Suc i) / W_spec \<alpha> (Suc i) \<longleftrightarrow> 2 \<le> Suc i"
    using var_denom_pos_iff[OF assms(2), of "Suc i"] by (simp only: var_denom_def)
  have d: "ewm_std (1 / \<alpha> - 1) (map snd df) ! i \<noteq> None \<longleftrightarrow> 2 \<le> Suc i"
    unfolding b using c by (simp del: spec_Suc)
  have e: "ewm_std (1 / \<alpha> - 1) (map snd df) ! 0 = None"
    using assms(3) by (intro ewm_std_first) auto
  have r: "Wsq_spec \<alpha> (Suc i) = 1 + (1 - \<alpha>)\<^sup>2 * Wsq_spec \<alpha> i"
    "D_spec \<alpha> (map snd df) (Suc i)
        = (1 - \<alpha>) * D_spec \<alpha> (map snd df) i
          + (1 - \<alpha>) * W_spec \<alpha> i / W_spec \<alpha> (Suc i)
            * (map snd df ! i - mean_spec \<alpha> (map snd df) i)\<^sup>2"
    by (simp_all only: Wsq_spec.simps D_spec.simps)
  from a b c d e r D_spec_sum[OF le, of "map snd df" i] show ?thesis by blast
qed

theorem C2_weighted_std_witness:
  "(0::real) < 1 / 2 \<and> (1::real) / 2 < 1 \<and> (1::nat) < length [(1::nat, 1::real), (2, - 1), (3, 2)]
   \<and> ewm_std (1 / (1 / 2) - 1) (map snd [(1::nat, 1::real), (2, - 1), (3, 2)]) ! 1
       = Some (sqrt 2)
   \<and> ewm_std (1 / (1 / 2) - 1) (map snd [(1::nat, 1::real), (2, - 1), (3, 2)]) ! 0 = None"
proof -
  have h: "(0::real) < 1 / 2" "(1::real) / 2 < 1"
    "(1::nat) < length [(1::nat, 1::real), (2, - 1), (3, 2)]"
    by simp_all
  have w: "W_spec (1 / 2) (Suc 1) = 3 / 2" and q: "Wsq_spec (1 / 2) (Suc 1) = 5 / 4"
    and d: "D_spec (1 / 2) (map snd [(1::nat, 1::real), (2, - 1), (3, 2)]) (Suc 1) = 4 / 3"
    by (simp_all add: mean_spec_def power2_eq_square)
  from C2_weighted_std[OF h] have
    "ewm_std (1 / (1 / 2) - 1) (map snd [(1::nat, 1::real), (2, - 1), (3, 2)]) ! 1
        = (if 0 < W_spec (1 / 2) (Suc 1) - Wsq_spec (1 / 2) (Suc 1) / W_spec (1 / 2) (Suc 1)
           then Some (sqrt (D_spec (1 / 2) (map snd [(1::nat, 1::real), (2, - 1), (3, 2)]) (Suc 1)
                / (W_spec (1 / 2) (Suc 1) - Wsq_spec (1 / 2) (Suc 1) / W_spec (1 / 2) (Suc 1))))
           else None)"
    and "ewm_std (1 / (1 / 2) - 1) (map snd [(1::nat, 1::real), (2, - 1), (3, 2)]) ! 0 = None"
    by blast+
  then show ?thesis unfolding w q d using h by simp
qed

lemma sorted_frame:
  assumes "sorted_wrt (<) (map fst df)"
  shows "sorted_wrt alpha_then_timestamp (map row_key (ewm_columns a com df))"
proof -
  have "alpha_then_timestamp (row_key (ewm_columns a com df ! i))
          (row_key (ewm_columns a com df ! j))"
    if "i < j" and "j < length df" for i j
  proof -
    from assms that have "map fst df ! i < map fst df ! j"
      by (simp add: sorted_wrt_iff_nth_less del: nth_map)
    with that show ?thesis
      by (simp add: nth_ewm_columns row_key_def alpha_then_timestamp_def)
  qed
  then show ?thesis
    by (simp add: sorted_wrt_iff_nth_less length_ewm_columns)
qed

lemma alpha_ewm_columns: "r \<in> set (ewm_columns a com df) \<Longrightarrow> alpha r = a"
  by (auto dest: in_ewm_columns)

lemma sorted_wrt_dropna:
  "sorted_wrt alpha_then_timestamp (map row_key rows) \<Longrightarrow>
   sorted_wrt alpha_then_timestamp (map row_key (dropna rows))"
  by (simp add: dropna_def sorted_wrt_map sorted_wrt_filter)

lemma df_ewm_alphas:
  "df_ewm alphas df =
     Inr (dropna (ewm_columns (1 / 100) (1 / (1 / 100) - 1) df
                  @ ewm_columns (5 / 100) (1 / (5 / 100) - 1) df
                  @ ewm_columns (1 / 10) (1 / (1 / 10) - 1) df))"
proof -
  have "alphas \<noteq> []" "\<forall>a\<in>set alphas. 0 < a \<and> a \<le> 1"
    by (simp_all add: alphas_def)
  from df_ewm_valid[OF this, of df] show ?thesis by (simp add: alphas_def)
qed

text \<open>
  Claim C6, amended. The written smoothed table is produced for every input, and its
  rows are sorted by decay parameter first and by timestamp second, strictly: the blocks
  of the decay parameters 0.01, 0.05 and 0.1 follow one another, each in ascending order
  of timestamp.
\<close>

theorem C6_sorted_by_alpha_then_timestamp:
  "\<exists>keys. written_keys df_exec = Inr keys \<and> sorted_wrt alpha_then_timestamp keys"
proof -
  let ?df = "df_exec_delta df_exec"
  let ?f1 = "ewm_columns (1 / 100) (1 / (1 / 100) - 1) ?df"
  let ?f2 = "ewm_columns (5 / 100) (1 / (5 / 100) - 1) ?df"
  let ?f3 = "ewm_columns (1 / 10) (1 / (1 / 10) - 1) ?df"
  have s: "sorted_wrt (<) (map fst ?df)"
    unfolding df_exec_delta_def by (rule sorted_groupby_sum)
  have cross: "alpha_then_timestamp (row_key r) (row_key r')"
    if "alpha r < alpha r'" for r r' :: "'a ewm_row"
    using that by (simp add: alpha_then_timestamp_def row_key_def)
  have "sorted_wrt alpha_then_timestamp (map row_key (?f1 @ ?f2 @ ?f3))"
    using sorted_frame[OF s]
    by (auto simp: sorted_wrt_append dest!: alpha_ewm_columns intro!: cross)
  then have "sorted_wrt alpha_then_timestamp (map row_key (dropna (?f1 @ ?f2 @ ?f3)))"
    by (rule sorted_wrt_dropna)
  then show ?thesis
    by (simp add: written_keys_def etl_def df_ewm_alphas Let_def)
qed

text \<open>
  Claim C6, as stated, makes the timestamp the primary sort key of the written table.
  For three executions at the timestamps 1, 2 and 3 the written rows are those of the
  timestamps 2, 3, 2, 3, 2, 3: the row of timestamp 3 and decay parameter 0.01 stands
  before the row of timestamp 2 and decay parameter 0.05.
\<close>

theorem C6_counterexample:
  "written_keys
     [\<lparr>exec_date = (1::nat), price = 100, side = ''BUY'', exec_size = 1\<rparr>,
      \<lparr>exec_date = 2, price = 100, side = ''SELL'', exec_size = 1\<rparr>,
      \<lparr>exec_date = 3, price = 100, side = ''BUY'', exec_size = 2\<rparr>]
   = Inr [(2, 1 / 100), (3, 1 / 100), (2, 5 / 100), (3, 5 / 100), (2, 1 / 10), (3, 1 / 10)]
   \<and> \<not> sorted_wrt timestamp_then_alpha
         [(2::nat, 1 / 100), (3, 1 / 100), (2, 5 / 100), (3, 5 / 100), (2, 1 / 10), (3, 1 / 10)]"
proof -
  have d: "df_exec_delta
     [\<lparr>exec_date = (1::nat), price = 100, side = ''BUY'', exec_size = 1\<rparr>,
      \<lparr>exec_date = 2, price = 100, side = ''SELL'', exec_size = 1\<rparr>,
      \<lparr>exec_date = 3, price = 100, side = ''BUY'', exec_size = 2\<rparr>]
     = [(1, 1), (2, - 1), (3, 2)]"
    by (simp add: df_exec_delta_def assign_signed_size_def signed_size_def groupby_sum_def)
  have k: "map_sum id (map row_key) (df_ewm alphas [(1::nat, 1), (2, - 1), (3, 2)])
      = Inr [(2, 1 / 100), (3, 1 / 100), (2, 5 / 100), (3, 5 / 100), (2, 1 / 10), (3, 1 / 10)]"
    by (simp add: df_ewm_def alphas_def assign_ewm_def ewm_com_def ewm_columns_def ewm_mean_def
        ewm_std_def ewm_var_def pd_concat_def dropna_def row_key_def Let_def del: not_None_eq)
  have "written_keys
     [\<lparr>exec_date = (1::nat), price = 100, side = ''BUY'', exec_size = 1\<rparr>,
      \<lparr>exec_date = 2, price = 100, side = ''SELL'', exec_size = 1\<rparr>,
      \<lparr>exec_date = 3, price = 100, side = ''BUY'', exec_size = 2\<rparr>]
   = Inr [(2, 1 / 100), (3, 1 / 100), (2, 5 / 100), (3, 5 / 100), (2, 1 / 10), (3, 1 / 10)]"
    using k unfolding written_keys_def etl_def d Let_def
    by (auto split: sum.splits)
  moreover have "\<not> sorted_wrt timestamp_then_alpha
         [(2::nat, 1 / 100), (3, 1 / 100), (2, 5 / 100), (3, 5 / 100), (2, 1 / 10), (3, 1 / 10)]"
    by (simp add: timestamp_then_alpha_def)
  ultimately show ?thesis by blast
qed

lemma ewm_mean_alpha1: "ewm_mean (1 / 1 - 1) xs = map Some xs"
proof -
  have "ewm_mean (1 / 1 - 1) xs = map (\<lambda>i. Some (mean_spec 1 xs (Suc i))) [0..<length xs]"
    by (rule ewm_mean_spec) simp_all
  also have "\<dots> = map (\<lambda>i. Some (xs ! i)) [0..<length xs]"
    by (simp only: mean_spec_alpha1)
  also have "\<dots> = map Some (map (\<lambda>i. xs ! i) [0..<length xs])"
    by simp
  finally show ?thesis by (simp only: map_nth)
qed

lemma ewm_std_alpha1: "ewm_std (1 / 1 - 1) xs = replicate (length xs) None"
proof -
  have "ewm_std (1 / 1 - 1) xs = map (\<lambda>i. std_spec 1 xs (Suc i)) [0..<length xs]"
    by (rule ewm_std_spec) simp_all
  also have "\<dots> = map (\<lambda>i. None) [0..<length xs]"
    by (simp only: std_spec_def var_spec_def var_denom_alpha1) simp
  finally show ?thesis by (simp add: map_replicate_const)
qed

text \<open>
  Claim C8. For the decay parameter 1 and every flow series, the weighted mean at every
  position is the value at that position, the weighted standard deviation is undefined
  at every position, and the smoothed table for the decay parameter 1 is empty.
\<close>

theorem C8_alpha_one:
  "ewm_mean (1 / 1 - 1) (map snd df) = map Some (map snd df)
   \<and> ewm_std (1 / 1 - 1) (map snd df) = replicate (length df) None
   \<and> assign_ewm 1 df
       = Inr (map (\<lambda>(t, x). \<lparr>timestamp = t, size_col = x, alpha = 1,
                               ewma = Some x, ewmstd = None\<rparr>) df)
   \<and> df_ewm [1] df = Inr []"
proof -
  have m: "ewm_mean (1 / 1 - 1) (map snd df) = map Some (map snd df)"
    by (rule ewm_mean_alpha1)
  have s: "ewm_std (1 / 1 - 1) (map snd df) = replicate (length df) None"
    using ewm_std_alpha1[of "map snd df"] by simp
  have c: "ewm_columns 1 (1 / 1 - 1) df
           = map (\<lambda>(t, x). \<lparr>timestamp = t, size_col = x, alpha = 1,
                               ewma = Some x, ewmstd = None\<rparr>) df"
    unfolding ewm_columns_def m s
    by (rule nth_equalityI) (simp_all add: split_beta)
  have a: "assign_ewm 1 df = Inr (ewm_columns 1 (1 / 1 - 1) df)"
    by (rule assign_ewm_valid) simp_all
  have "dropna (ewm_columns 1 (1 / 1 - 1) df) = []"
    unfolding c by (simp add: dropna_def filter_empty_conv split_beta)
  then have "df_ewm [1] df = Inr []"
    by (simp add: df_ewm_def a pd_concat_def)
  with m s a c show ?thesis by simp
qed


text \<open>
  Claim C7 asks that the path given with \<open>--sqlite\<close> selects the database. The code
  opens \<open>lightning.sqlite3\<close> whatever the option holds: with \<open>--sqlite=other.sqlite3\<close>
  the parsed option is \<open>other.sqlite3\<close>, the path opened is \<open>lightning.sqlite3\<close>, and
  the tables read are those of the database stored under \<open>lightning.sqlite3\<close>.
\<close>

theorem C7_connect_ignores_sqlite_option:
  "sqlite (docopt False (Some ''other.sqlite3'')) = ''other.sqlite3''
   \<and> connect_path (docopt False (Some ''other.sqlite3'')) = ''lightning.sqlite3''
   \<and> read_dfs (\<lambda>p. if p = ''other.sqlite3'' then (2::nat) else 1)
        (docopt False (Some ''other.sqlite3'')) = 1"
  by (simp add: docopt_def connect_path_def read_dfs_def)

end
